theory Spec2Isabelle
  imports
    Main
    "HOL-Library.Sublist"
    "HOL-Library.Char_ord"
    "HOL-Library.List_Lexorder"
    "HOL-Library.AList"
begin

section \<open>Go calls that may panic\<close>

text \<open>
  A Go call either returns (possibly with an \<open>error\<close> value) or panics. Nothing in
  \<open>main.go\<close> recovers from a panic, so a panic ends the process.
\<close>

datatype 'a outcome = Returned 'a | Panicked

section \<open>JSON values and \<open>encoding/json\<close>\<close>

text \<open>
  Tool arguments arrive as \<open>map[string]interface{}\<close>; \<open>executeTool\<close> marshals the map and
  each tool unmarshals the bytes again. The bytes are modelled by the JSON value they
  encode; an object is the list of its members in the order of the text. Go strings are
  byte sequences, which is what \<open>string\<close> (a list of 8-bit characters) is. Numbers only
  matter here by not being strings.
\<close>

datatype json =
    JNull
  | JBool bool
  | JNumber int
  | JString string
  | JArray "json list"
  | JObject "(string \<times> json) list"

text \<open>
  \<open>json.Unmarshal\<close> into a struct matches an object key against a field name exactly or
  case-insensitively. Against an ASCII field name the folding amounts to upper-casing
  ASCII letters (subtracting \<open>'a' - 'A'\<close>, that is clearing the bit of value 32), with
  the two non-ASCII runes that fold to ASCII letters (U+017F to \<open>S\<close>, U+212A to \<open>K\<close>).
\<close>

definition upper_ascii :: "char \<Rightarrow> char" where
  "upper_ascii c =
     (if CHR ''a'' \<le> c \<and> c \<le> CHR ''z''
      then Char (digit0 c) (digit1 c) (digit2 c) (digit3 c) (digit4 c) False (digit6 c) (digit7 c)
      else c)"

fun foldName :: "string \<Rightarrow> string" where
  "foldName [] = []"
| "foldName (c # s) =
     (if c = CHR 0xC5 \<and> take 1 s = [CHR 0xBF] then CHR ''S'' # foldName (drop 1 s)
      else if c = CHR 0xE2 \<and> take 2 s = [CHR 0x84, CHR 0xAA] then CHR ''K'' # foldName (drop 2 s)
      else upper_ascii c # foldName s)"

definition field_members :: "string \<Rightarrow> (string \<times> json) list \<Rightarrow> json list" where
  "field_members f kvs = map snd (filter (\<lambda>kv. foldName (fst kv) = foldName f) kvs)"

text \<open>
  Decoding into a Go \<open>string\<close> field: a JSON string is stored (a later member for the
  same field overwrites an earlier one), \<open>null\<close> has no effect, and every other value is
  skipped while \<open>Unmarshal\<close> remembers an \<open>UnmarshalTypeError\<close> to return at the end.
\<close>

fun store_string :: "string \<Rightarrow> json \<Rightarrow> string" where
  "store_string cur (JString s) = s"
| "store_string cur v = cur"

definition string_field :: "string \<Rightarrow> (string \<times> json) list \<Rightarrow> string" where
  "string_field f kvs = foldl store_string [] (field_members f kvs)"

fun mistyped :: "json \<Rightarrow> bool" where
  "mistyped (JString s) = False"
| "mistyped JNull = False"
| "mistyped v = True"

definition type_error :: "string list \<Rightarrow> (string \<times> json) list \<Rightarrow> bool" where
  "type_error fs kvs = list_ex (\<lambda>f. list_ex mistyped (field_members f kvs)) fs"

text \<open>
  \<open>json.Unmarshal\<close> into \<open>map[string]interface{}\<close>: an object gives the map of its members
  (the last of equal keys wins), \<open>null\<close> leaves the map nil (every lookup misses), any
  other value is an error.
\<close>

fun Unmarshal_map :: "json \<Rightarrow> (string \<rightharpoonup> json) option" where
  "Unmarshal_map (JObject kvs) = Some (map_of (rev kvs))"
| "Unmarshal_map JNull = Some Map.empty"
| "Unmarshal_map v = None"

section \<open>The filesystem\<close>

text \<open>
  A tree of regular files and directories (no symbolic links, no permissions), and the
  working directory as the list of names leading to it from the root.
\<close>

datatype node = File string | Dir "(string \<times> node) list"

record filesys =
  root :: node
  cwd :: "string list"

datatype errno = ENOENT | ENOTDIR | EISDIR | EEXIST

fun lookup :: "node \<Rightarrow> string list \<Rightarrow> node option" where
  "lookup n [] = Some n"
| "lookup (File x) (c # cs) = None"
| "lookup (Dir es) (c # cs) =
     (case map_of es c of None \<Rightarrow> None | Some n \<Rightarrow> lookup n cs)"

text \<open>\<open>put t q new\<close> places \<open>new\<close> at \<open>q\<close> when the parent of \<open>q\<close> is a directory of \<open>t\<close>.\<close>

fun put :: "node \<Rightarrow> string list \<Rightarrow> node \<Rightarrow> node" where
  "put n [] new = new"
| "put (File x) (c # cs) new = File x"
| "put (Dir es) (c # cs) new =
     (case map_of es c of
        None \<Rightarrow> if cs = [] then Dir (AList.update c new es) else Dir es
      | Some n \<Rightarrow> Dir (AList.update c (put n cs new) es))"

subsection \<open>Path strings\<close>

fun split_slash :: "string \<Rightarrow> string list" where
  "split_slash [] = [[]]"
| "split_slash (c # s) =
     (if c = CHR ''/'' then [] # split_slash s
      else (case split_slash s of [] \<Rightarrow> [[c]] | x # xs \<Rightarrow> (c # x) # xs))"

fun join_slash :: "string list \<Rightarrow> string" where
  "join_slash [] = []"
| "join_slash [x] = x"
| "join_slash (x # y # ys) = x @ ''/'' @ join_slash (y # ys)"

text \<open>
  Resolution of a path, one component at a time: every component is looked up in a
  directory, \<open>.\<close> and the empty component stay, \<open>..\<close> goes to the parent (the root is
  its own parent).
\<close>

fun walk_path :: "node \<Rightarrow> string list \<Rightarrow> string list \<Rightarrow> errno + string list" where
  "walk_path t cur [] = Inr cur"
| "walk_path t cur (c # cs) =
     (case lookup t cur of
        Some (Dir es) \<Rightarrow>
          if c = [] \<or> c = ''.'' then walk_path t cur cs
          else if c = ''..'' then walk_path t (butlast cur) cs
          else (case map_of es c of
                  None \<Rightarrow> Inl ENOENT
                | Some n \<Rightarrow> walk_path t (cur @ [c]) cs)
      | _ \<Rightarrow> Inl ENOTDIR)"

definition start_dir :: "filesys \<Rightarrow> string \<Rightarrow> string list" where
  "start_dir st name = (if take 1 name = ''/'' then [] else cwd st)"

definition namei :: "filesys \<Rightarrow> string \<Rightarrow> errno + string list" where
  "namei st name =
     (if name = [] then Inl ENOENT
      else walk_path (root st) (start_dir st name) (split_slash name))"

text \<open>
  \<open>path.Clean\<close> and \<open>path.Dir\<close> work on the text of a path alone: empty and \<open>.\<close>
  elements are dropped, an inner \<open>..\<close> removes the element before it, \<open>..\<close> at the
  start of a rooted path is dropped, and the empty result is \<open>.\<close>.
\<close>

definition clean_step :: "bool \<Rightarrow> string list \<Rightarrow> string \<Rightarrow> string list" where
  "clean_step rooted out c =
     (if c = [] \<or> c = ''.'' then out
      else if c = ''..'' then
        (if out \<noteq> [] \<and> last out \<noteq> ''..'' then butlast out
         else if rooted then out else out @ [c])
      else out @ [c])"

definition path_Clean :: "string \<Rightarrow> string" where
  "path_Clean p =
     (let rooted = (take 1 p = ''/'');
          out = foldl (clean_step rooted) [] (split_slash p);
          s = (if rooted then ''/'' else []) @ join_slash out
      in if s = [] then ''.'' else s)"

definition dir_part :: "string \<Rightarrow> string" where
  "dir_part p = rev (dropWhile (\<lambda>c. c \<noteq> CHR ''/'') (rev p))"

definition path_Dir :: "string \<Rightarrow> string" where
  "path_Dir p = path_Clean (dir_part p)"

subsection \<open>Errors\<close>

text \<open>Go \<open>error\<close> values, one constructor for each message \<open>main.go\<close> or the library makes.\<close>

datatype error =
    UnmarshalTypeError
  | PathError string string errno
  | FailedToParseInput error
  | InvalidInputFormat error
  | MustBeDifferent
  | FileNotExistOldNotEmpty
  | OldStrNotFound
  | FailedToCreateDirectory error
  | FailedToCreateFile error
  | GatewayError string
  | ErrorSendingMessage error

text \<open>
  The string a tool returns: text the tool builds itself, or the text \<open>json.Marshal\<close>
  makes of a list of strings (\<open>list_files\<close>), kept as that list.
\<close>

datatype payload = Plain string | Marshalled "string list"

fun os_IsNotExist :: "error \<Rightarrow> bool" where
  "os_IsNotExist (PathError opn name e) = (e = ENOENT)"
| "os_IsNotExist e = False"

subsection \<open>\<open>os.ReadFile\<close>, \<open>os.WriteFile\<close>, \<open>os.MkdirAll\<close>\<close>

definition os_ReadFile :: "filesys \<Rightarrow> string \<Rightarrow> error + string" where
  "os_ReadFile st name =
     (case namei st name of
        Inl e \<Rightarrow> Inl (PathError ''open'' name e)
      | Inr q \<Rightarrow>
          (case lookup (root st) q of
             Some (File content) \<Rightarrow> Inr content
           | Some (Dir es) \<Rightarrow> Inl (PathError ''read'' name EISDIR)
           | None \<Rightarrow> Inl (PathError ''open'' name ENOENT)))"

text \<open>
  \<open>os.WriteFile\<close> opens with create and truncate: the directory part must resolve to a
  directory; the last element names a new file or an existing regular file there.
  The source does not tell the errors of a failed write apart.
\<close>

definition os_WriteFile :: "filesys \<Rightarrow> string \<Rightarrow> string \<Rightarrow> error + filesys" where
  "os_WriteFile st name content =
     (if name = [] then Inl (PathError ''open'' name ENOENT)
      else
        (case walk_path (root st) (start_dir st name) (butlast (split_slash name)) of
           Inl e \<Rightarrow> Inl (PathError ''open'' name e)
         | Inr d \<Rightarrow>
             (case lookup (root st) d of
                Some (Dir es) \<Rightarrow>
                  (let c = last (split_slash name) in
                   if c = [] \<or> c = ''.'' \<or> c = ''..'' then Inl (PathError ''open'' name EISDIR)
                   else
                     (case map_of es c of
                        Some (Dir es') \<Rightarrow> Inl (PathError ''open'' name EISDIR)
                      | _ \<Rightarrow> Inr (st\<lparr>root := put (root st) (d @ [c]) (File content)\<rparr>)))
              | _ \<Rightarrow> Inl (PathError ''open'' name ENOTDIR))))"

text \<open>
  \<open>os.MkdirAll\<close> makes every missing directory along the path and fails where an
  element is a regular file; the directories made before a failure stay.
\<close>

fun mkdir_walk :: "node \<Rightarrow> string list \<Rightarrow> string list \<Rightarrow> errno option \<times> node" where
  "mkdir_walk t cur [] =
     (case lookup t cur of Some (Dir es) \<Rightarrow> (None, t) | _ \<Rightarrow> (Some ENOTDIR, t))"
| "mkdir_walk t cur (c # cs) =
     (case lookup t cur of
        Some (Dir es) \<Rightarrow>
          if c = [] \<or> c = ''.'' then mkdir_walk t cur cs
          else if c = ''..'' then mkdir_walk t (butlast cur) cs
          else (case map_of es c of
                  None \<Rightarrow> mkdir_walk (put t (cur @ [c]) (Dir [])) (cur @ [c]) cs
                | Some n \<Rightarrow> mkdir_walk t (cur @ [c]) cs)
      | _ \<Rightarrow> (Some ENOTDIR, t))"

definition os_MkdirAll :: "filesys \<Rightarrow> string \<Rightarrow> error option \<times> filesys" where
  "os_MkdirAll st name =
     (if name = [] then (Some (PathError ''mkdir'' name ENOENT), st)
      else
        (case mkdir_walk (root st) (start_dir st name) (split_slash name) of
           (None, t) \<Rightarrow> (None, st\<lparr>root := t\<rparr>)
         | (Some e, t) \<Rightarrow> (Some (PathError ''mkdir'' name e), st\<lparr>root := t\<rparr>)))"

section \<open>\<open>strings.Replace\<close> with \<open>n = -1\<close>\<close>

text \<open>
  \<open>utf8.DecodeRuneInString\<close> gives the width of the first UTF-8 sequence: 1 for an ASCII
  byte and for a byte that starts no valid sequence, else the length of the sequence.
\<close>

definition in_range :: "nat \<Rightarrow> nat \<Rightarrow> char \<Rightarrow> bool" where
  "in_range lo hi c = (lo \<le> of_char c \<and> of_char c \<le> hi)"

definition rune_width :: "string \<Rightarrow> nat" where
  "rune_width s =
     (case s of
        [] \<Rightarrow> 0
      | c # t \<Rightarrow>
          (let b = (of_char c :: nat) in
           if b < 0x80 then 1
           else if 0xC2 \<le> b \<and> b \<le> 0xDF then
             (case t of
                c1 # r \<Rightarrow> if in_range 0x80 0xBF c1 then 2 else 1
              | _ \<Rightarrow> 1)
           else if 0xE0 \<le> b \<and> b \<le> 0xEF then
             (case t of
                c1 # c2 # r \<Rightarrow>
                  if in_range (if b = 0xE0 then 0xA0 else 0x80) (if b = 0xED then 0x9F else 0xBF) c1
                     \<and> in_range 0x80 0xBF c2 then 3 else 1
              | _ \<Rightarrow> 1)
           else if 0xF0 \<le> b \<and> b \<le> 0xF4 then
             (case t of
                c1 # c2 # c3 # r \<Rightarrow>
                  if in_range (if b = 0xF0 then 0x90 else 0x80) (if b = 0xF4 then 0x8F else 0xBF) c1
                     \<and> in_range 0x80 0xBF c2 \<and> in_range 0x80 0xBF c3 then 4 else 1
              | _ \<Rightarrow> 1)
           else 1))"

text \<open>The UTF-8 sequences of a string, in order.\<close>

function runes :: "string \<Rightarrow> string list" where
  "runes s = (if s = [] then [] else take (rune_width s) s # runes (drop (rune_width s) s))"
  by pat_completeness auto
termination
proof (relation "measure length")
  fix s :: string
  assume "s \<noteq> []"
  then have "0 < rune_width s"
    by (cases s) (auto simp: rune_width_def Let_def split: list.splits)
  with \<open>s \<noteq> []\<close> show "(drop (rune_width s) s, s) \<in> measure length"
    by simp
qed simp

declare runes.simps [simp del]

text \<open>
  With an empty \<open>old\<close>, \<open>Replace\<close> matches at the beginning of the string and after each
  UTF-8 sequence. With a non-empty \<open>old\<close> it replaces the non-overlapping instances of
  \<open>old\<close> from the left.
\<close>

function replace_nonempty :: "string \<Rightarrow> string \<Rightarrow> string \<Rightarrow> string" where
  "replace_nonempty old new [] = []"
| "replace_nonempty old new (c # s) =
     (if old \<noteq> [] \<and> prefix old (c # s)
      then new @ replace_nonempty old new (drop (length old) (c # s))
      else c # replace_nonempty old new s)"
  by pat_completeness auto
termination
  by (relation "measure (\<lambda>(old, new, s). length s)") auto

declare replace_nonempty.simps(2) [simp del]

definition strings_Replace :: "string \<Rightarrow> string \<Rightarrow> string \<Rightarrow> string" where
  "strings_Replace s old new =
     (if old = new then s
      else if old = [] then new @ concat (map (\<lambda>r. r @ new) (runes s))
      else replace_nonempty old new s)"

section \<open>The \<open>edit_file\<close> tool\<close>

record EditFileInput =
  Path :: string
  OldStr :: string
  NewStr :: string

definition zero_EditFileInput :: EditFileInput where
  "zero_EditFileInput = \<lparr>Path = [], OldStr = [], NewStr = []\<rparr>"

text \<open>
  \<open>json.Unmarshal(input, &editFileInput)\<close>: whether it returns an error, and the struct
  it leaves behind (fields that could be decoded are set even when it fails).
\<close>

fun Unmarshal_EditFileInput :: "json \<Rightarrow> bool \<times> EditFileInput" where
  "Unmarshal_EditFileInput (JObject kvs) =
     (type_error [''path'', ''old_str'', ''new_str''] kvs,
      \<lparr>Path = string_field ''path'' kvs,
       OldStr = string_field ''old_str'' kvs,
       NewStr = string_field ''new_str'' kvs\<rparr>)"
| "Unmarshal_EditFileInput JNull = (False, zero_EditFileInput)"
| "Unmarshal_EditFileInput v = (True, zero_EditFileInput)"

text \<open>
  The recovery branch reads the fields again from \<open>partialInput\<close>. The type assertion
  \<open>x.(string)\<close> panics on every value that is not a string, \<open>nil\<close> included.
\<close>

definition recover_Path :: "(string \<rightharpoonup> json) \<Rightarrow> string outcome" where
  "recover_Path m =
     (case m ''path'' of
        None \<Rightarrow> Returned ''./fizzbuzz.js''
      | Some (JString s) \<Rightarrow> Returned (if s = [] then ''./fizzbuzz.js'' else s)
      | Some v \<Rightarrow> Panicked)"

definition recover_OldStr :: "string \<Rightarrow> (string \<rightharpoonup> json) \<Rightarrow> string outcome" where
  "recover_OldStr cur m =
     (case m ''old_str'' of
        None \<Rightarrow> Returned []
      | Some JNull \<Rightarrow> Returned cur
      | Some (JString s) \<Rightarrow> Returned s
      | Some v \<Rightarrow> Panicked)"

definition recover_NewStr :: "string \<Rightarrow> (string \<rightharpoonup> json) \<Rightarrow> string outcome" where
  "recover_NewStr cur m =
     (case m ''new_str'' of
        None \<Rightarrow> Returned cur
      | Some JNull \<Rightarrow> Returned cur
      | Some (JString s) \<Rightarrow> Returned s
      | Some v \<Rightarrow> Panicked)"

text \<open>Lines 369 to 395 of \<open>EditFile\<close>: the input struct, an error, or a panic.\<close>

definition EditFile_input :: "json \<Rightarrow> (error + EditFileInput) outcome" where
  "EditFile_input input =
     (case Unmarshal_EditFileInput input of
        (False, v) \<Rightarrow> Returned (Inr v)
      | (True, v) \<Rightarrow>
          (case Unmarshal_map input of
             None \<Rightarrow> Returned (Inl (InvalidInputFormat UnmarshalTypeError))
           | Some m \<Rightarrow>
               (case recover_Path m of
                  Panicked \<Rightarrow> Panicked
                | Returned p \<Rightarrow>
                    (case recover_OldStr (OldStr v) m of
                       Panicked \<Rightarrow> Panicked
                     | Returned old \<Rightarrow>
                         (case recover_NewStr (NewStr v) m of
                            Panicked \<Rightarrow> Panicked
                          | Returned new \<Rightarrow>
                              Returned (Inr \<lparr>Path = p, OldStr = old, NewStr = new\<rparr>))))))"

definition createNewFile :: "filesys \<Rightarrow> string \<Rightarrow> string \<Rightarrow> (error + payload) \<times> filesys" where
  "createNewFile st filePath content =
     (let dir = path_Dir filePath in
      case (if dir \<noteq> ''.'' then os_MkdirAll st dir else (None, st)) of
        (Some e, st1) \<Rightarrow> (Inl (FailedToCreateDirectory e), st1)
      | (None, st1) \<Rightarrow>
          (case os_WriteFile st1 filePath content of
             Inl e \<Rightarrow> (Inl (FailedToCreateFile e), st1)
           | Inr st2 \<Rightarrow> (Inr (Plain (''Successfully created file '' @ filePath)), st2)))"

text \<open>Lines 397 to 437 of \<open>EditFile\<close>, on the decoded input.\<close>

definition edit :: "filesys \<Rightarrow> EditFileInput \<Rightarrow> (error + payload) \<times> filesys" where
  "edit st v =
     (let path = (if Path v = [] then ''./failed.txt'' else Path v) in
      if OldStr v = NewStr v \<and> OldStr v \<noteq> [] then (Inl MustBeDifferent, st)
      else
        (case os_ReadFile st path of
           Inl err \<Rightarrow>
             if os_IsNotExist err then
               (if OldStr v \<noteq> [] then (Inl FileNotExistOldNotEmpty, st)
                else createNewFile st path (NewStr v))
             else (Inl err, st)
         | Inr oldContent \<Rightarrow>
             (let newContent = strings_Replace oldContent (OldStr v) (NewStr v) in
              if oldContent = newContent \<and> OldStr v \<noteq> [] then (Inl OldStrNotFound, st)
              else
                (case os_WriteFile st path newContent of
                   Inl e \<Rightarrow> (Inl e, st)
                 | Inr st' \<Rightarrow> (Inr (Plain (''File '' @ path @ '' updated successfully'')), st')))))"

definition EditFile :: "filesys \<Rightarrow> json \<Rightarrow> ((error + payload) \<times> filesys) outcome" where
  "EditFile st input =
     (case EditFile_input input of
        Panicked \<Rightarrow> Panicked
      | Returned (Inl e) \<Rightarrow> Returned (Inl e, st)
      | Returned (Inr v) \<Rightarrow> Returned (edit st v))"

text \<open>
  The payload of a well-formed call \<open>edit_file(path, old_str, new_str)\<close>: what
  \<open>json.Marshal\<close> makes of an argument map holding the three strings.
\<close>

definition edit_args :: "string \<Rightarrow> string \<Rightarrow> string \<Rightarrow> json" where
  "edit_args p old new =
     JObject [(''new_str'', JString new), (''old_str'', JString old), (''path'', JString p)]"

section \<open>The \<open>read_file\<close> and \<open>list_files\<close> tools\<close>

text \<open>
  \<open>ReadFileInput\<close> and \<open>ListFilesInput\<close> have the one string field \<open>path\<close>:
  \<open>json.Unmarshal\<close> into either gives whether it failed and the path it stored.
\<close>

fun Unmarshal_path :: "json \<Rightarrow> bool \<times> string" where
  "Unmarshal_path (JObject kvs) = (type_error [''path''] kvs, string_field ''path'' kvs)"
| "Unmarshal_path JNull = (False, [])"
| "Unmarshal_path v = (True, [])"

definition ReadFile :: "filesys \<Rightarrow> json \<Rightarrow> ((error + payload) \<times> filesys) outcome" where
  "ReadFile st input =
     (case Unmarshal_path input of
        (True, p) \<Rightarrow> Returned (Inl UnmarshalTypeError, st)
      | (False, p) \<Rightarrow>
          (case os_ReadFile st p of
             Inl err \<Rightarrow> Returned (Inl err, st)
           | Inr content \<Rightarrow> Returned (Inr (Plain content), st)))"

text \<open>
  \<open>filepath.WalkDir\<close> visits the root, then, for a directory, its entries in the order
  of \<open>os.ReadDir\<close> (sorted by name), each with everything below it before the next.
  A visit is the list of names from the root to the entry, and whether it is a directory.
\<close>

function walkDir :: "string list \<Rightarrow> node \<Rightarrow> (string list \<times> bool) list" where
  "walkDir rel (File content) = [(rel, False)]"
| "walkDir rel (Dir es) =
     (rel, True) # concat (map (\<lambda>e. walkDir (rel @ [fst e]) (snd e)) (sort_key fst es))"
  by pat_completeness auto
termination
proof (relation "measure (\<lambda>(rel, n). size n)")
  show "wf (measure (\<lambda>(rel, n). size n))" by simp
next
  fix rel :: "string list" and es :: "(string \<times> node) list" and e
  assume "e \<in> set (sort_key fst es)"
  then have "e \<in> set es" by simp
  then have "size (snd e) < Suc (size_list (size_prod (\<lambda>x. 0) size) es)"
    by (induction es) auto
  then show "((rel @ [fst e], snd e), (rel, Dir es)) \<in> measure (\<lambda>(rel, n). size n)"
    by simp
qed

text \<open>
  \<open>filepath.Rel(dir, path)\<close> for a path that \<open>WalkDir\<close> made from \<open>dir\<close>: the names below
  \<open>dir\<close> joined by the separator, and \<open>.\<close> for \<open>dir\<close> itself.
\<close>

definition filepath_Rel :: "string list \<Rightarrow> string" where
  "filepath_Rel rel = (if rel = [] then ''.'' else join_slash rel)"

text \<open>The callback of \<open>ListFiles\<close>, on the list \<open>files\<close> collected so far.\<close>

definition ListFiles_visit :: "string list \<Rightarrow> string list \<times> bool \<Rightarrow> string list" where
  "ListFiles_visit files v =
     (let relPath = filepath_Rel (fst v) in
      if relPath \<noteq> ''.'' then
        (if snd v then files @ [relPath @ ''/''] else files @ [relPath])
      else files)"

definition ListFiles :: "filesys \<Rightarrow> json \<Rightarrow> ((error + payload) \<times> filesys) outcome" where
  "ListFiles st input =
     (case Unmarshal_path input of
        (True, p) \<Rightarrow> Returned (Inl (FailedToParseInput UnmarshalTypeError), st)
      | (False, p) \<Rightarrow>
          (let dir = (if p \<noteq> [] then p else ''.'') in
           case namei st dir of
             Inl e \<Rightarrow> Returned (Inl (PathError ''lstat'' dir e), st)
           | Inr q \<Rightarrow>
               (case lookup (root st) q of
                  None \<Rightarrow> Returned (Inl (PathError ''lstat'' dir ENOENT), st)
                | Some n \<Rightarrow>
                    Returned (Inr (Marshalled (foldl ListFiles_visit [] (walkDir [] n))), st))))"

section \<open>The agent\<close>

text \<open>
  A tool definition, with the fields the dispatch uses: the description and the input
  schema are only sent to the model.
\<close>

record ToolDefinition =
  Name :: string
  Function :: "filesys \<Rightarrow> json \<Rightarrow> ((error + payload) \<times> filesys) outcome"

definition ReadFileDefinition :: ToolDefinition where
  "ReadFileDefinition = \<lparr>Name = ''read_file'', Function = ReadFile\<rparr>"

definition ListFilesDefinition :: ToolDefinition where
  "ListFilesDefinition = \<lparr>Name = ''list_files'', Function = ListFiles\<rparr>"

definition EditFileDefinition :: ToolDefinition where
  "EditFileDefinition = \<lparr>Name = ''edit_file'', Function = EditFile\<rparr>"

text \<open>The tools \<open>main\<close> gives the agent.\<close>

definition tools :: "ToolDefinition list" where
  "tools = [ReadFileDefinition, ListFilesDefinition, EditFileDefinition]"

text \<open>
  The map \<open>executeTool\<close> returns has one entry: \<open>error\<close> with the text "tool not found",
  \<open>error\<close> with the text of the tool's error, or \<open>result\<close> with the tool's string.
\<close>

datatype result_map = ErrorToolNotFound | ErrorOf error | Result payload

datatype part = Text string | FunctionCall string "(string \<times> json) list" | OtherPart

datatype message = UserText string | FunctionResponses "(string \<times> result_map) list"

text \<open>What the process prints, reads and sends, in order.\<close>

datatype event =
    Banner
  | Prompt
  | Read string
  | Sent message
  | Printed string
  | ToolTrace string json
  | Logged error

text \<open>
  \<open>executeTool\<close>: the result map, the filesystem after the call and what was printed.
  The argument map is given by its entries in the order \<open>json.Marshal\<close> writes them.
  A nil map is written as \<open>null\<close>, which the three tools decode as they decode the
  empty object (\<open>null_like_empty_object\<close>).
\<close>

definition executeTool ::
  "ToolDefinition list \<Rightarrow> filesys \<Rightarrow> string \<Rightarrow> (string \<times> json) list \<Rightarrow>
     (result_map \<times> filesys \<times> event list) outcome" where
  "executeTool a st name input =
     (case find (\<lambda>tool. Name tool = name) a of
        None \<Rightarrow> Returned (ErrorToolNotFound, st, [])
      | Some toolDef \<Rightarrow>
          (let inputJSON = JObject input in
           case Function toolDef st inputJSON of
             Panicked \<Rightarrow> Panicked
           | Returned (Inl err, st') \<Rightarrow> Returned (ErrorOf err, st', [ToolTrace name inputJSON])
           | Returned (Inr response, st') \<Rightarrow>
               Returned (Result response, st', [ToolTrace name inputJSON])))"

text \<open>
  A response of the model: its candidates, each with its content (which may be nil) as
  the list of parts. \<open>Run\<close> reads \<open>resp.Candidates[0].Content.Parts\<close> unguarded.
\<close>

datatype candidate = Candidate "part list option"

type_synonym response = "candidate list"

fun first_parts :: "response \<Rightarrow> part list outcome" where
  "first_parts [] = Panicked"
| "first_parts (Candidate None # cs) = Panicked"
| "first_parts (Candidate (Some parts) # cs) = Returned parts"

text \<open>
  The chat session is the gateway's: sending a message in a session state gives a
  response or an error, and the next session state.
\<close>

type_synonym 'g gateway = "'g \<Rightarrow> message \<Rightarrow> (error + response) \<times> 'g"

record 'g world =
  files :: filesys
  session :: 'g
  events :: "event list"

fun texts :: "part list \<Rightarrow> string list" where
  "texts [] = []"
| "texts (Text v # ps) = v # texts ps"
| "texts (p # ps) = texts ps"

fun calls :: "part list \<Rightarrow> (string \<times> (string \<times> json) list) list" where
  "calls [] = []"
| "calls (FunctionCall name args # ps) = (name, args) # calls ps"
| "calls (p # ps) = calls ps"

text \<open>Lines 129 to 135: the tool calls in order, one function response for each.\<close>

fun dispatch ::
  "ToolDefinition list \<Rightarrow> filesys \<Rightarrow> (string \<times> (string \<times> json) list) list \<Rightarrow>
     ((string \<times> result_map) list \<times> filesys \<times> event list) outcome" where
  "dispatch a st [] = Returned ([], st, [])"
| "dispatch a st (call # cs) =
     (case executeTool a st (fst call) (snd call) of
        Panicked \<Rightarrow> Panicked
      | Returned (result, st1, ev1) \<Rightarrow>
          (case dispatch a st1 cs of
             Panicked \<Rightarrow> Panicked
           | Returned (toolParts, st2, ev2) \<Rightarrow>
               Returned ((fst call, result) # toolParts, st2, ev1 @ ev2)))"

text \<open>One pass through the body of the loop of \<open>Run\<close>, from line 108, on a line read.\<close>

definition turn ::
  "ToolDefinition list \<Rightarrow> 'g gateway \<Rightarrow> 'g world \<Rightarrow> string \<Rightarrow> (error option \<times> 'g world) outcome" where
  "turn a gw w userInput =
     (case gw (session w) (UserText userInput) of
        (Inl err, g1) \<Rightarrow>
          Returned (Some (ErrorSendingMessage err),
            w\<lparr>session := g1,
              events := events w @ [Sent (UserText userInput), Logged (ErrorSendingMessage err)]\<rparr>)
      | (Inr resp, g1) \<Rightarrow>
          (case first_parts resp of
             Panicked \<Rightarrow> Panicked
           | Returned parts \<Rightarrow>
               (let w1 = w\<lparr>session := g1,
                            events := events w @ [Sent (UserText userInput)] @ map Printed (texts parts)\<rparr>;
                    toolCalls = calls parts
                in if toolCalls = [] then Returned (None, w1)
                   else
                     (case dispatch a (files w1) toolCalls of
                        Panicked \<Rightarrow> Panicked
                      | Returned (toolParts, st2, evs) \<Rightarrow>
                          (case gw g1 (FunctionResponses toolParts) of
                             (Inl err, g2) \<Rightarrow>
                               Returned (Some err,
                                 \<lparr>files = st2, session = g2,
                                  events = events w1 @ evs @
                                    [Sent (FunctionResponses toolParts), Logged err]\<rparr>)
                           | (Inr resp2, g2) \<Rightarrow>
                               (case first_parts resp2 of
                                  Panicked \<Rightarrow> Panicked
                                | Returned parts2 \<Rightarrow>
                                    Returned (None,
                                      \<lparr>files = st2, session = g2,
                                       events = events w1 @ evs @
                                         [Sent (FunctionResponses toolParts)] @
                                         map Printed (texts parts2)\<rparr>)))))))"

text \<open>
  The loop of \<open>Run\<close> on the lines the user enters; the end of the list is the end of
  the input, where \<open>getUserMessage\<close> reports \<open>false\<close> and \<open>Run\<close> returns nil.
\<close>

fun Run_loop ::
  "ToolDefinition list \<Rightarrow> 'g gateway \<Rightarrow> 'g world \<Rightarrow> string list \<Rightarrow> (error option \<times> 'g world) outcome" where
  "Run_loop a gw w [] = Returned (None, w\<lparr>events := events w @ [Prompt]\<rparr>)"
| "Run_loop a gw w (userInput # rest) =
     (case turn a gw (w\<lparr>events := events w @ [Prompt, Read userInput]\<rparr>) userInput of
        Panicked \<Rightarrow> Panicked
      | Returned (Some err, w') \<Rightarrow> Returned (Some err, w')
      | Returned (None, w') \<Rightarrow> Run_loop a gw w' rest)"

definition Run ::
  "ToolDefinition list \<Rightarrow> 'g gateway \<Rightarrow> 'g world \<Rightarrow> string list \<Rightarrow> (error option \<times> 'g world) outcome" where
  "Run a gw w inputs = Run_loop a gw (w\<lparr>events := events w @ [Banner]\<rparr>) inputs"

text \<open>Events that send tool results to the model, and events that trace a tool call.\<close>

fun is_responses :: "event \<Rightarrow> bool" where
  "is_responses (Sent (FunctionResponses rs)) = True"
| "is_responses e = False"

fun is_trace :: "event \<Rightarrow> bool" where
  "is_trace (ToolTrace name input) = True"
| "is_trace e = False"

text \<open>A gateway that answers from a fixed list of replies, for the examples.\<close>

fun scripted :: "((error + response) list) gateway" where
  "scripted [] m = (Inl (GatewayError ''no reply''), [])"
| "scripted (r # rs) m = (r, rs)"

section \<open>What a path names\<close>


text \<open>
  \<open>stat t q\<close> is \<open>None\<close> when nothing is at \<open>q\<close>, \<open>Some None\<close> for a directory and
  \<open>Some (Some c)\<close> for a regular file with content \<open>c\<close>. Two trees have the same shape
  when they have the same directories and the same names.
\<close>

fun node_stat :: "node \<Rightarrow> string option" where
  "node_stat (File content) = Some content"
| "node_stat (Dir es) = None"

definition stat :: "node \<Rightarrow> string list \<Rightarrow> string option option" where
  "stat t q = map_option node_stat (lookup t q)"

definition same_shape :: "node \<Rightarrow> node \<Rightarrow> bool" where
  "same_shape t t' \<longleftrightarrow>
     (\<forall>r. (stat t r = Some None \<longleftrightarrow> stat t' r = Some None) \<and>
          (stat t r = None \<longleftrightarrow> stat t' r = None))"




section \<open>Example states\<close>

definition demo_fs :: filesys where
  "demo_fs = \<lparr>root = Dir [(''a.txt'', File ''hello''), (''b'', Dir [(''c.txt'', File ''aab'')])],
              cwd = []\<rparr>"

definition demo_fs1 :: filesys where
  "demo_fs1 = \<lparr>root = Dir [(''a.txt'', File ''hello''), (''b'', Dir [(''c.txt'', File ''ab'')])],
               cwd = []\<rparr>"

definition demo_fs2 :: filesys where
  "demo_fs2 = \<lparr>root = Dir [(''a.txt'', File ''hello''), (''b'', Dir [(''c.txt'', File ''b'')])],
               cwd = []\<rparr>"


definition fs_fizzbuzz :: filesys where
  "fs_fizzbuzz = \<lparr>root = Dir [(''a.txt'', File ''hello''), (''b'', Dir [(''c.txt'', File ''aab'')]),
                           (''fizzbuzz.js'', File [])], cwd = []\<rparr>"

definition fs_failed_hi :: filesys where
  "fs_failed_hi = \<lparr>root = Dir [(''a.txt'', File ''hello''), (''b'', Dir [(''c.txt'', File ''aab'')]),
                           (''failed.txt'', File ''hi'')], cwd = []\<rparr>"

definition demo_reply1 :: "error + response" where
  "demo_reply1 = Inr [Candidate (Some [Text ''looking'', FunctionCall ''nope'' [],
                     FunctionCall ''read_file'' [(''path'', JString ''a.txt'')]])]"

definition demo_reply2 :: "error + response" where
  "demo_reply2 = Inr [Candidate (Some [FunctionCall ''edit_file''
                     [(''new_str'', JString ''bye''), (''old_str'', JString ''hello''),
                      (''path'', JString ''a.txt'')], Text ''done''])]"

definition demo_world :: "((error + response) list) world" where
  "demo_world = \<lparr>files = demo_fs, session = [demo_reply1, demo_reply2], events = []\<rparr>"



section \<open>Properties\<close>

subsection \<open>Decoding a well-formed call\<close>

lemma EditFile_input_edit_args:
  "EditFile_input (edit_args p old new) =
     Returned (Inr \<lparr>Path = p, OldStr = old, NewStr = new\<rparr>)"
  by (simp add: EditFile_input_def edit_args_def type_error_def field_members_def
      string_field_def upper_ascii_def)

lemma EditFile_edit_args:
  "EditFile st (edit_args p old new) =
     Returned (edit st \<lparr>Path = p, OldStr = old, NewStr = new\<rparr>)"
  by (simp add: EditFile_def EditFile_input_edit_args)

lemma os_ReadFile_nonempty: "os_ReadFile st p = Inr content \<Longrightarrow> p \<noteq> []"
  by (auto simp: os_ReadFile_def namei_def)

subsection \<open>Replacement when \<open>old\<close> does not occur\<close>

lemma replace_nonempty_absent:
  "\<not> sublist old s \<Longrightarrow> replace_nonempty old new s = s"
proof (induction old new s rule: replace_nonempty.induct)
  case (1 old new)
  then show ?case by simp
next
  case (2 old new c s)
  from "2.prems" have np: "\<not> prefix old (c # s)" and ns: "\<not> sublist old s"
    by (auto simp: sublist_Cons_right)
  with "2.IH"(2) show ?case
    by (simp add: replace_nonempty.simps(2))
qed

lemma strings_Replace_absent:
  "old \<noteq> [] \<Longrightarrow> \<not> sublist old s \<Longrightarrow> strings_Replace s old new = s"
  by (simp add: strings_Replace_def replace_nonempty_absent)

subsection \<open>Paths, \<open>stat\<close> and \<open>put\<close>\<close>

lemma lookup_append:
  "lookup t (q @ r) = (case lookup t q of None \<Rightarrow> None | Some n \<Rightarrow> lookup n r)"
proof (induction t q rule: lookup.induct)
  case (1 n)
  then show ?case by simp
next
  case (2 x c cs)
  then show ?case by simp
next
  case (3 es c cs)
  then show ?case by (simp split: option.splits)
qed

lemma stat_dir_iff: "stat t q = Some None \<longleftrightarrow> (\<exists>es. lookup t q = Some (Dir es))"
  by (cases "lookup t q") (auto simp: stat_def elim: node_stat.elims)

lemma stat_file_iff: "stat t q = Some (Some c) \<longleftrightarrow> lookup t q = Some (File c)"
  by (cases "lookup t q") (auto simp: stat_def elim: node_stat.elims)

lemma stat_none_iff: "stat t q = None \<longleftrightarrow> lookup t q = None"
  by (simp add: stat_def)

lemma child_absent_iff:
  "lookup t cur = Some (Dir es) \<Longrightarrow> map_of es c = None \<longleftrightarrow> stat t (cur @ [c]) = None"
  by (simp add: stat_def lookup_append split: option.splits)

lemma walk_path_stat:
  "walk_path t cur (c # cs) =
     (if stat t cur = Some None then
        (if c = [] \<or> c = ''.'' then walk_path t cur cs
         else if c = ''..'' then walk_path t (butlast cur) cs
         else if stat t (cur @ [c]) = None then Inl ENOENT
         else walk_path t (cur @ [c]) cs)
      else Inl ENOTDIR)"
proof (cases "lookup t cur")
  case None
  then show ?thesis by (simp add: stat_def)
next
  case (Some n)
  show ?thesis
  proof (cases n)
    case (File x)
    with Some show ?thesis by (simp add: stat_def)
  next
    case (Dir es)
    with Some child_absent_iff [of t cur es c] show ?thesis
      by (auto simp: stat_def split: option.splits)
  qed
qed

lemma walk_path_cong_stat:
  "same_shape t t' \<Longrightarrow> walk_path t cur cs = walk_path t' cur cs"
proof (induction cs arbitrary: cur)
  case Nil
  then show ?case by simp
next
  case (Cons c cs)
  show ?case
    unfolding walk_path_stat [of t] walk_path_stat [of t']
    using Cons by (simp add: same_shape_def)
qed

lemma walk_path_append:
  "walk_path t cur (cs @ ds) =
     (case walk_path t cur cs of Inl e \<Rightarrow> Inl e | Inr d \<Rightarrow> walk_path t d ds)"
proof (induction cs arbitrary: cur)
  case Nil
  then show ?case by simp
next
  case (Cons c cs)
  show ?case
    unfolding append_Cons walk_path_stat [of t cur c]
    using Cons by simp
qed

lemma stat_put:
  assumes "q \<noteq> []" and "stat t (butlast q) = Some None"
    and "stat t q \<noteq> Some None" and "new = File content \<or> new = Dir []"
  shows "stat (put t q new) r = (if r = q then Some (node_stat new) else stat t r)"
  using assms
proof (induction t q new arbitrary: r rule: put.induct)
  case (1 n new)
  then show ?case by simp
next
  case (2 x c cs new)
  then show ?case by (cases cs) (simp_all add: stat_def)
next
  case (3 es c cs new)
  show ?case
  proof (cases cs)
    case Nil
    have "stat (Dir (AList.update c new es)) r = (if r = [c] then Some (node_stat new) else stat (Dir es) r)"
    proof (cases r)
      case Nil
      then show ?thesis by (simp add: stat_def)
    next
      case (Cons c' rs)
      show ?thesis
      proof (cases "c' = c")
        case True
        from "3.prems"(3) Nil have nd: "\<And>n. map_of es c = Some n \<Longrightarrow> \<exists>x. n = File x"
          by (auto simp: stat_def elim: node_stat.elims)
        from "3.prems"(4) have "rs \<noteq> [] \<Longrightarrow> lookup new rs = None"
          by (cases rs) auto
        moreover have "rs \<noteq> [] \<Longrightarrow> (case map_of es c of None \<Rightarrow> None | Some n \<Rightarrow> lookup n rs) = None"
          using nd by (cases rs) (auto split: option.splits)
        ultimately show ?thesis using Cons True
          by (auto simp: stat_def update_conv')
      next
        case False
        with Cons show ?thesis by (simp add: stat_def update_conv')
      qed
    qed
    with Nil show ?thesis by (auto split: option.splits)
  next
    case (Cons d ds)
    from "3.prems"(2) Cons obtain n where n: "map_of es c = Some n"
      and nb: "stat n (butlast cs) = Some None"
      by (auto simp: stat_def split: option.splits)
    from "3.prems"(3) n have nq: "stat n cs \<noteq> Some None"
      by (simp add: stat_def)
    have IH: "\<And>r. stat (put n cs new) r = (if r = cs then Some (node_stat new) else stat n r)"
      using "3.IH" [OF n] Cons nb nq "3.prems"(4) by simp
    show ?thesis
    proof (cases r)
      case Nil
      with n show ?thesis by (simp add: stat_def)
    next
      case (Cons c' rs)
      with n IH [of rs] show ?thesis
        by (auto simp: stat_def update_conv')
    qed
  qed
qed

declare walk_path.simps(2) [simp del]

text \<open>Unfolding the operations on a concrete state.\<close>

lemmas run_defs =
  EditFile_def EditFile_input_def edit_def createNewFile_def ReadFile_def ListFiles_def
  ListFiles_visit_def filepath_Rel_def executeTool_def turn_def Run_def tools_def
  ReadFileDefinition_def ListFilesDefinition_def EditFileDefinition_def
  recover_Path_def recover_OldStr_def recover_NewStr_def zero_EditFileInput_def
  os_ReadFile_def os_WriteFile_def os_MkdirAll_def namei_def start_dir_def
  walk_path.simps(2) walkDir.simps(2) path_Dir_def path_Clean_def dir_part_def clean_step_def
  type_error_def field_members_def string_field_def upper_ascii_def
  strings_Replace_def replace_nonempty.simps(2) Let_def

lemma stat_below_file:
  "stat t d = Some (Some c) \<Longrightarrow> r \<noteq> [] \<Longrightarrow> stat t (d @ r) = None"
  by (cases r) (auto simp: stat_def lookup_append elim!: node_stat.elims split: option.splits)

lemma walk_path_file_last:
  assumes "walk_path t cur cs = Inr q" and "cs \<noteq> []" and "stat t q = Some (Some c0)"
  shows "\<exists>d. walk_path t cur (butlast cs) = Inr d \<and> stat t d = Some None \<and> q = d @ [last cs]
           \<and> last cs \<noteq> [] \<and> last cs \<noteq> ''.'' \<and> last cs \<noteq> ''..''"
proof -
  from assms(2) have cs: "cs = butlast cs @ [last cs]" by simp
  from assms(1) obtain d where d: "walk_path t cur (butlast cs) = Inr d"
    and l: "walk_path t d [last cs] = Inr q"
    by (subst (asm) cs) (auto simp: walk_path_append split: sum.splits)
  from l have dir: "stat t d = Some None"
    by (auto simp: walk_path_stat split: if_splits)
  have nb: "q \<noteq> butlast d"
  proof
    assume qb: "q = butlast d"
    show False
    proof (cases "d = []")
      case True
      with qb dir assms(3) show False by simp
    next
      case False
      then have "d = butlast d @ [last d]" by simp
      with stat_below_file [of t "butlast d" c0 "[last d]"] qb assms(3) dir show False
        by simp
    qed
  qed
  from l dir assms(3) nb have "q = d @ [last cs] \<and> last cs \<noteq> [] \<and> last cs \<noteq> ''.'' \<and> last cs \<noteq> ''..''"
    by (auto simp: walk_path_stat split: if_splits)
  with d dir show ?thesis by blast
qed

lemma os_ReadFile_Inr_iff:
  "os_ReadFile st p = Inr content \<longleftrightarrow>
     p \<noteq> [] \<and> (\<exists>q. namei st p = Inr q \<and> stat (root st) q = Some (Some content))"
  by (auto simp: os_ReadFile_def namei_def stat_file_iff split: sum.splits option.splits node.splits)

lemma same_shape_put_file:
  assumes "q \<noteq> []" and "stat t (butlast q) = Some None" and "stat t q = Some (Some c0)"
  shows "same_shape t (put t q (File content))"
  using assms by (simp add: same_shape_def stat_put)

lemma os_WriteFile_existing:
  assumes "os_ReadFile st p = Inr c0"
  shows "\<exists>q. namei st p = Inr q \<and> stat (root st) q = Some (Some c0) \<and>
           q \<noteq> [] \<and> stat (root st) (butlast q) = Some None \<and>
           os_WriteFile st p content = Inr (st\<lparr>root := put (root st) q (File content)\<rparr>)"
proof -
  from assms obtain q where p: "p \<noteq> []" and q: "namei st p = Inr q"
    and f: "stat (root st) q = Some (Some c0)"
    by (auto simp: os_ReadFile_Inr_iff)
  from q p have w: "walk_path (root st) (start_dir st p) (split_slash p) = Inr q"
    by (simp add: namei_def)
  have ne: "split_slash p \<noteq> []"
    by (cases p) (auto split: list.splits)
  from walk_path_file_last [OF w ne f] obtain d where
    d: "walk_path (root st) (start_dir st p) (butlast (split_slash p)) = Inr d"
    and dd: "stat (root st) d = Some None" and qd: "q = d @ [last (split_slash p)]"
    and l: "last (split_slash p) \<noteq> []" "last (split_slash p) \<noteq> ''.''" "last (split_slash p) \<noteq> ''..''"
    by blast
  from dd obtain es where es: "lookup (root st) d = Some (Dir es)"
    by (auto simp: stat_dir_iff)
  from f qd es have "map_of es (last (split_slash p)) = Some (File c0)"
    by (auto simp: stat_file_iff lookup_append split: option.splits)
  with p d es l qd have "os_WriteFile st p content = Inr (st\<lparr>root := put (root st) q (File content)\<rparr>)"
    by (simp add: os_WriteFile_def)
  with q f qd dd show ?thesis by simp
qed

lemma os_ReadFile_after_put:
  assumes "namei st p = Inr q" and "p \<noteq> []" and "q \<noteq> []"
    and "stat (root st) (butlast q) = Some None" and "stat (root st) q = Some (Some c0)"
  shows "os_ReadFile (st\<lparr>root := put (root st) q (File content)\<rparr>) p = Inr content"
proof -
  have sh: "same_shape (root st) (put (root st) q (File content))"
    using assms(3-5) by (rule same_shape_put_file)
  have "namei (st\<lparr>root := put (root st) q (File content)\<rparr>) p = namei st p"
    by (simp add: namei_def start_dir_def walk_path_cong_stat [OF sh])
  with assms(1) have "namei (st\<lparr>root := put (root st) q (File content)\<rparr>) p = Inr q"
    by simp
  moreover have "stat (put (root st) q (File content)) q = Some (Some content)"
    using assms(3-5) by (simp add: stat_put)
  ultimately show ?thesis using assms(2)
    by (simp add: os_ReadFile_Inr_iff)
qed

subsection \<open>Writing an existing file; replacement\<close>

lemma edit_existing_writes:
  assumes r: "os_ReadFile st p = Inr c0"
    and d: "old = [] \<or> (old \<noteq> new \<and> strings_Replace c0 old new \<noteq> c0)"
  shows "\<exists>st' q. EditFile st (edit_args p old new) =
             Returned (Inr (Plain (''File '' @ p @ '' updated successfully'')), st') \<and>
           os_ReadFile st' p = Inr (strings_Replace c0 old new) \<and>
           cwd st' = cwd st \<and> namei st p = Inr q \<and>
           (\<forall>r. stat (root st') r =
                (if r = q then Some (Some (strings_Replace c0 old new)) else stat (root st) r))"
proof -
  let ?new = "strings_Replace c0 old new"
  from r have p: "p \<noteq> []" by (rule os_ReadFile_nonempty)
  from os_WriteFile_existing [OF r, of ?new] obtain q where
    q: "namei st p = Inr q" and f: "stat (root st) q = Some (Some c0)" and qn: "q \<noteq> []"
    and b: "stat (root st) (butlast q) = Some None"
    and w: "os_WriteFile st p ?new = Inr (st\<lparr>root := put (root st) q (File ?new)\<rparr>)"
    by blast
  let ?st' = "st\<lparr>root := put (root st) q (File ?new)\<rparr>"
  from r d p w have "EditFile st (edit_args p old new) =
      Returned (Inr (Plain (''File '' @ p @ '' updated successfully'')), ?st')"
    by (auto simp: EditFile_def EditFile_input_edit_args edit_def Let_def)
  moreover have "os_ReadFile ?st' p = Inr ?new"
    using q p qn b f by (rule os_ReadFile_after_put)
  moreover have "\<forall>r. stat (root ?st') r = (if r = q then Some (Some ?new) else stat (root st) r)"
    using qn b f by (simp add: stat_put)
  ultimately show ?thesis using q
    by (intro exI [of _ ?st'] exI [of _ q]) simp
qed

lemma replace_nonempty_length_ge:
  "length old \<le> length new \<Longrightarrow> length s \<le> length (replace_nonempty old new s)"
proof (induction old new s rule: replace_nonempty.induct)
  case (1 old new)
  then show ?case by simp
next
  case (2 old new c s)
  show ?case
  proof (cases "old \<noteq> [] \<and> prefix old (c # s)")
    case True
    then have "length old \<le> length (c # s)" by (auto dest: prefix_length_le)
    with True "2.IH"(1) "2.prems" show ?thesis
      by (simp add: replace_nonempty.simps(2))
  next
    case False
    with "2.IH"(2) "2.prems" show ?thesis
      by (auto simp: replace_nonempty.simps(2))
  qed
qed

lemma replace_nonempty_length_le:
  "length new \<le> length old \<Longrightarrow> length (replace_nonempty old new s) \<le> length s"
proof (induction old new s rule: replace_nonempty.induct)
  case (1 old new)
  then show ?case by simp
next
  case (2 old new c s)
  show ?case
  proof (cases "old \<noteq> [] \<and> prefix old (c # s)")
    case True
    then have "length old \<le> length (c # s)" by (auto dest: prefix_length_le)
    with True "2.IH"(1) "2.prems" show ?thesis
      by (simp add: replace_nonempty.simps(2))
  next
    case False
    with "2.IH"(2) "2.prems" show ?thesis
      by (auto simp: replace_nonempty.simps(2))
  qed
qed

lemma replace_nonempty_at_match:
  "old \<noteq> [] \<Longrightarrow> replace_nonempty old new (old @ rest) = new @ replace_nonempty old new rest"
proof (cases old)
  case Nil
  then show "old \<noteq> [] \<Longrightarrow> ?thesis" by simp
next
  case (Cons c t)
  then show ?thesis
    using replace_nonempty.simps(2) [of old new c "t @ rest"] by simp
qed

lemma replace_nonempty_fixed:
  "old \<noteq> new \<Longrightarrow> replace_nonempty old new s = s \<Longrightarrow> old \<noteq> [] \<Longrightarrow> \<not> sublist old s"
proof (induction old new s rule: replace_nonempty.induct)
  case (1 old new)
  then show ?case by simp
next
  case (2 old new c s)
  show ?case
  proof (cases "prefix old (c # s)")
    case True
    then obtain rest where rest: "c # s = old @ rest"
      by (auto simp: prefix_def)
    then have dr: "drop (length old) (c # s) = rest" by simp
    from "2.prems" have eq: "new @ replace_nonempty old new rest = old @ rest"
      by (simp add: rest replace_nonempty_at_match)
    have False
    proof (cases "length new = length old")
      case True
      with eq have "new = old" by simp
      with "2.prems" show False by simp
    next
      case False
      from eq have "length new + length (replace_nonempty old new rest) = length old + length rest"
        by (metis length_append)
      with False replace_nonempty_length_ge [of old new rest]
        replace_nonempty_length_le [of new old rest]
      show False by linarith
    qed
    then show ?thesis ..
  next
    case False
    with "2.prems" have "replace_nonempty old new s = s"
      by (simp add: replace_nonempty.simps(2))
    with "2.IH"(2) "2.prems" False have "\<not> sublist old s" by simp
    with False show ?thesis by (simp add: sublist_Cons_right)
  qed
qed

lemma strings_Replace_changes:
  "old \<noteq> [] \<Longrightarrow> old \<noteq> new \<Longrightarrow> sublist old s \<Longrightarrow> strings_Replace s old new \<noteq> s"
  using replace_nonempty_fixed [of old new s] by (auto simp: strings_Replace_def)

lemma prefix_append_long: "prefix xs (u @ v) \<Longrightarrow> length xs \<le> length u \<Longrightarrow> prefix xs u"
  by (metis prefix_length_prefix prefixI)

lemma replace_nonempty_leftmost:
  "old \<noteq> [] \<Longrightarrow> \<not> sublist old (a @ butlast old) \<Longrightarrow>
   replace_nonempty old new (a @ old @ b) = a @ new @ replace_nonempty old new b"
proof (induction a)
  case Nil
  then show ?case by (simp add: replace_nonempty_at_match)
next
  case (Cons x a)
  have "\<not> prefix old ((x # a) @ old @ b)"
  proof
    assume pr: "prefix old ((x # a) @ old @ b)"
    from Cons.prems(1) obtain u l where ul: "old = u @ [l]"
      by (cases old rule: rev_cases) auto
    with pr have "prefix old (((x # a) @ u) @ ([l] @ b))" by simp
    moreover from ul have "length old \<le> length ((x # a) @ u)" by simp
    ultimately have "prefix old ((x # a) @ u)" by (rule prefix_append_long)
    with ul have "prefix old ((x # a) @ butlast old)" by simp
    with Cons.prems(2) show False by (auto dest: prefix_imp_sublist)
  qed
  moreover from Cons.prems(2) have "\<not> sublist old (a @ butlast old)"
    by (simp add: sublist_Cons_right)
  ultimately show ?case using Cons.IH Cons.prems(1)
    by (simp add: replace_nonempty.simps(2))
qed

lemma concat_runes: "concat (runes s) = s"
proof (induction s rule: runes.induct)
  case (1 s)
  then show ?case by (subst runes.simps) simp
qed

lemma runes_ascii:
  "\<forall>c \<in> set s. (of_char c :: nat) < 0x80 \<Longrightarrow> runes s = map (\<lambda>c. [c]) s"
proof (induction s)
  case Nil
  then show ?case by (subst runes.simps) simp
next
  case (Cons c s)
  then have "rune_width (c # s) = 1" by (simp add: rune_width_def)
  with Cons show ?case by (subst runes.simps) simp
qed

lemma rune_width_pos: "s \<noteq> [] \<Longrightarrow> 0 < rune_width s"
  by (cases s) (auto simp: rune_width_def Let_def split: list.splits)

lemma runes_nonempty: "[] \<notin> set (runes s)"
proof (induction s rule: runes.induct)
  case (1 s)
  then show ?case
    using rune_width_pos [of s] by (subst runes.simps) auto
qed

subsection \<open>Rejected edits\<close>

text \<open>
  Claim C6. For every non-empty string \<open>X\<close> and every path, the call
  \<open>edit_file(path, old = X, new = X)\<close> fails with the error "old_str and new_str must be
  different" (the spec's \<open>InvalidArgs\<close>), whether or not a file is at the path, and the
  filesystem after the call is the filesystem before it.
\<close>

theorem edit_same_strings_rejected:
  "X \<noteq> [] \<Longrightarrow> EditFile st (edit_args p X X) = Returned (Inl MustBeDifferent, st)"
  by (simp add: EditFile_edit_args edit_def)

theorem edit_same_strings_rejected_witness:
  "''x'' \<noteq> [] \<and>
   EditFile demo_fs (edit_args ''a.txt'' ''x'' ''x'') = Returned (Inl MustBeDifferent, demo_fs) \<and>
   EditFile demo_fs (edit_args ''none'' ''x'' ''x'') = Returned (Inl MustBeDifferent, demo_fs)"
  using edit_same_strings_rejected [of "''x''" demo_fs "''a.txt''"]
    edit_same_strings_rejected [of "''x''" demo_fs "''none''"]
  by simp

text \<open>
  Claim C5. For every existing file whose content does not contain the non-empty string
  \<open>old\<close>, with \<open>old\<close> distinct from \<open>new\<close>, \<open>edit_file(path, old, new)\<close> fails with the
  error "old_str not found in file" (the spec's \<open>NoMatch\<close>) and nothing is written: the
  filesystem after the call is the filesystem before it.
\<close>

theorem edit_no_match_unchanged:
  assumes "os_ReadFile st p = Inr content" and "old \<noteq> []" and "old \<noteq> new"
    and "\<not> sublist old content"
  shows "EditFile st (edit_args p old new) = Returned (Inl OldStrNotFound, st)"
proof -
  from assms(1) have "p \<noteq> []"
    by (rule os_ReadFile_nonempty)
  with assms show ?thesis
    by (simp add: EditFile_edit_args edit_def strings_Replace_absent)
qed

theorem edit_no_match_unchanged_witness:
  "os_ReadFile demo_fs ''a.txt'' = Inr ''hello'' \<and> ''z'' \<noteq> [] \<and> ''z'' \<noteq> ''y'' \<and>
   \<not> sublist ''z'' ''hello'' \<and>
   EditFile demo_fs (edit_args ''a.txt'' ''z'' ''y'') = Returned (Inl OldStrNotFound, demo_fs)"
proof -
  have r: "os_ReadFile demo_fs ''a.txt'' = Inr ''hello''"
    by (simp add: run_defs demo_fs_def)
  have n: "\<not> sublist ''z'' ''hello''"
    by (simp add: sublist_Cons_right)
  from edit_no_match_unchanged [OF r _ _ n, of "''y''"] r n show ?thesis
    by simp
qed

subsection \<open>Edits of an existing file\<close>

text \<open>
  Claim C4, as stated, fails. The claim says that when \<open>new\<close> contains no occurrence of
  \<open>old\<close>, re-applying the same edit no longer finds \<open>old\<close>. On a file holding \<open>aab\<close>,
  replacing \<open>ab\<close> by \<open>b\<close> gives \<open>ab\<close>: the replacement joins text from before and after
  the match into a new occurrence, so the second call finds \<open>old\<close> again and succeeds.
\<close>

theorem edit_replace_reapplied_counterexample:
  "os_ReadFile demo_fs ''b/c.txt'' = Inr ''aab'' \<and> ''ab'' \<noteq> [] \<and> ''ab'' \<noteq> ''b'' \<and>
   sublist ''ab'' ''aab'' \<and> \<not> sublist ''ab'' ''b'' \<and>
   EditFile demo_fs (edit_args ''b/c.txt'' ''ab'' ''b'') =
     Returned (Inr (Plain ''File b/c.txt updated successfully''), demo_fs1) \<and>
   os_ReadFile demo_fs1 ''b/c.txt'' = Inr ''ab'' \<and>
   EditFile demo_fs1 (edit_args ''b/c.txt'' ''ab'' ''b'') =
     Returned (Inr (Plain ''File b/c.txt updated successfully''), demo_fs2)"
  by (simp add: run_defs demo_fs_def demo_fs1_def demo_fs2_def edit_args_def sublist_Cons_right)

text \<open>
  Claim C4, amended. For every existing file with content \<open>C\<close> and every non-empty
  string \<open>old\<close> occurring in \<open>C\<close>, with \<open>old\<close> distinct from \<open>new\<close>, \<open>edit_file\<close> succeeds
  and rewrites the file (and nothing else) with \<open>strings.Replace(C, old, new, -1)\<close>: a
  literal replacement that rewrites the leftmost occurrence and continues behind it,
  and leaves text without an occurrence alone. When the rewritten content contains no
  occurrence of \<open>old\<close>, re-applying the same edit fails with "old_str not found in file"
  and changes nothing.
\<close>

theorem edit_replaces_occurrences:
  assumes "os_ReadFile st p = Inr content" and "old \<noteq> []" and "old \<noteq> new"
    and "sublist old content"
  shows "\<exists>st' q. EditFile st (edit_args p old new) =
             Returned (Inr (Plain (''File '' @ p @ '' updated successfully'')), st') \<and>
           os_ReadFile st' p = Inr (strings_Replace content old new) \<and>
           cwd st' = cwd st \<and> namei st p = Inr q \<and>
           (\<forall>r. stat (root st') r =
                (if r = q then Some (Some (strings_Replace content old new))
                 else stat (root st) r)) \<and>
           (\<forall>a b. \<not> sublist old (a @ butlast old) \<longrightarrow>
                strings_Replace (a @ old @ b) old new = a @ new @ strings_Replace b old new) \<and>
           (\<forall>s. \<not> sublist old s \<longrightarrow> strings_Replace s old new = s) \<and>
           (\<not> sublist old (strings_Replace content old new) \<longrightarrow>
              EditFile st' (edit_args p old new) = Returned (Inl OldStrNotFound, st'))"
proof -
  from assms have ch: "strings_Replace content old new \<noteq> content"
    by (simp add: strings_Replace_changes)
  with assms(3) have d: "old = [] \<or> (old \<noteq> new \<and> strings_Replace content old new \<noteq> content)"
    by simp
  from edit_existing_writes [OF assms(1) d] obtain st' q where
    e: "EditFile st (edit_args p old new) =
          Returned (Inr (Plain (''File '' @ p @ '' updated successfully'')), st')"
    and r: "os_ReadFile st' p = Inr (strings_Replace content old new)"
    and c: "cwd st' = cwd st" and q: "namei st p = Inr q"
    and f: "\<forall>r. stat (root st') r =
                (if r = q then Some (Some (strings_Replace content old new))
                 else stat (root st) r)"
    by blast
  have l: "\<forall>a b. \<not> sublist old (a @ butlast old) \<longrightarrow>
             strings_Replace (a @ old @ b) old new = a @ new @ strings_Replace b old new"
    using assms(2,3) by (simp add: strings_Replace_def replace_nonempty_leftmost)
  have a: "\<forall>s. \<not> sublist old s \<longrightarrow> strings_Replace s old new = s"
    using assms(2) by (simp add: strings_Replace_absent)
  have n: "\<not> sublist old (strings_Replace content old new) \<longrightarrow>
             EditFile st' (edit_args p old new) = Returned (Inl OldStrNotFound, st')"
  proof
    assume ns: "\<not> sublist old (strings_Replace content old new)"
    from r have "p \<noteq> []" by (rule os_ReadFile_nonempty)
    with r ns assms(2,3) show "EditFile st' (edit_args p old new) = Returned (Inl OldStrNotFound, st')"
      by (simp add: EditFile_edit_args edit_def strings_Replace_absent)
  qed
  from e r c q f l a n show ?thesis by blast
qed

theorem edit_replaces_occurrences_witness:
  "os_ReadFile demo_fs ''a.txt'' = Inr ''hello'' \<and> ''l'' \<noteq> [] \<and> ''l'' \<noteq> ''L'' \<and>
   sublist ''l'' ''hello'' \<and> strings_Replace ''hello'' ''l'' ''L'' = ''heLLo'' \<and>
   \<not> sublist ''l'' ''heLLo'' \<and>
   (\<exists>st'. EditFile demo_fs (edit_args ''a.txt'' ''l'' ''L'') =
             Returned (Inr (Plain ''File a.txt updated successfully''), st') \<and>
          os_ReadFile st' ''a.txt'' = Inr ''heLLo'' \<and>
          EditFile st' (edit_args ''a.txt'' ''l'' ''L'') = Returned (Inl OldStrNotFound, st'))"
proof -
  have r: "os_ReadFile demo_fs ''a.txt'' = Inr ''hello''"
    by (simp add: run_defs demo_fs_def)
  have s: "sublist ''l'' ''hello''"
    by (simp add: sublist_Cons_right)
  have v: "strings_Replace ''hello'' ''l'' ''L'' = ''heLLo''"
    by (simp add: run_defs)
  have n: "\<not> sublist ''l'' ''heLLo''"
    by (simp add: sublist_Cons_right)
  from edit_replaces_occurrences [OF r _ _ s, of "''L''"] r s v n show ?thesis
    by auto
qed

text \<open>
  Claim C10. When \<open>edit_file\<close> is called with an empty \<open>old_str\<close> on a path that names an
  existing file, the call is not rejected: the file is written back and success is
  reported. With a non-empty \<open>new_str\<close> the new content is \<open>new_str\<close>, then every UTF-8
  sequence of the old content followed by \<open>new_str\<close> (for ASCII content: every
  character); with an empty \<open>new_str\<close> the content, and every other path, is as before.
\<close>

theorem edit_empty_old_on_existing:
  assumes "os_ReadFile st p = Inr content"
  shows "\<exists>st' q. EditFile st (edit_args p [] new) =
             Returned (Inr (Plain (''File '' @ p @ '' updated successfully'')), st') \<and>
           os_ReadFile st' p =
             Inr (if new = [] then content else new @ concat (map (\<lambda>r. r @ new) (runes content))) \<and>
           cwd st' = cwd st \<and> namei st p = Inr q \<and>
           (\<forall>r. stat (root st') r =
                (if r = q
                 then Some (Some (if new = [] then content
                                  else new @ concat (map (\<lambda>r. r @ new) (runes content))))
                 else stat (root st) r)) \<and>
           concat (runes content) = content \<and> [] \<notin> set (runes content) \<and>
           ((\<forall>c \<in> set content. (of_char c :: nat) < 0x80) \<longrightarrow>
              runes content = map (\<lambda>c. [c]) content)"
proof -
  have v: "strings_Replace content [] new =
      (if new = [] then content else new @ concat (map (\<lambda>r. r @ new) (runes content)))"
    by (auto simp: strings_Replace_def)
  from edit_existing_writes [OF assms, of "[]" new] show ?thesis
    unfolding v using concat_runes [of content] runes_nonempty [of content] runes_ascii [of content]
    by blast
qed

theorem edit_empty_old_on_existing_witness:
  "os_ReadFile demo_fs ''a.txt'' = Inr ''hello'' \<and>
   runes ''hello'' = [''h'', ''e'', ''l'', ''l'', ''o''] \<and>
   (\<exists>st'. EditFile demo_fs (edit_args ''a.txt'' [] ''X'') =
             Returned (Inr (Plain ''File a.txt updated successfully''), st') \<and>
          os_ReadFile st' ''a.txt'' = Inr ''XhXeXlXlXoX'') \<and>
   (\<exists>st'. EditFile demo_fs (edit_args ''a.txt'' [] []) =
             Returned (Inr (Plain ''File a.txt updated successfully''), st') \<and>
          os_ReadFile st' ''a.txt'' = Inr ''hello'' \<and>
          (\<forall>r. stat (root st') r = stat (root demo_fs) r))"
proof -
  have r: "os_ReadFile demo_fs ''a.txt'' = Inr ''hello''"
    by (simp add: run_defs demo_fs_def)
  have a: "\<forall>c \<in> set ''hello''. (of_char c :: nat) < 0x80"
    by simp
  from edit_empty_old_on_existing [OF r, of "''X''"] a
  have x: "runes ''hello'' = [''h'', ''e'', ''l'', ''l'', ''o''] \<and>
     (\<exists>st'. EditFile demo_fs (edit_args ''a.txt'' [] ''X'') =
             Returned (Inr (Plain ''File a.txt updated successfully''), st') \<and>
          os_ReadFile st' ''a.txt'' = Inr ''XhXeXlXlXoX'')"
    by auto
  from edit_empty_old_on_existing [OF r, of "[]"] r
  have "\<exists>st'. EditFile demo_fs (edit_args ''a.txt'' [] []) =
             Returned (Inr (Plain ''File a.txt updated successfully''), st') \<and>
          os_ReadFile st' ''a.txt'' = Inr ''hello'' \<and>
          (\<forall>r. stat (root st') r = stat (root demo_fs) r)"
    by (auto simp: os_ReadFile_Inr_iff)
  with r x show ?thesis by blast
qed

subsection \<open>Malformed and incomplete arguments\<close>

lemma EditFile_well_formed:
  "\<not> type_error [''path'', ''old_str'', ''new_str''] args \<Longrightarrow>
   EditFile st (JObject args) =
     Returned (edit st \<lparr>Path = string_field ''path'' args,
                          OldStr = string_field ''old_str'' args,
                          NewStr = string_field ''new_str'' args\<rparr>)"
  by (simp add: EditFile_def EditFile_input_def)

lemma edit_default_path:
  "edit st \<lparr>Path = [], OldStr = old, NewStr = new\<rparr> =
   edit st \<lparr>Path = ''./failed.txt'', OldStr = old, NewStr = new\<rparr>"
  by (simp add: edit_def Let_def cong: sum.case_cong if_cong)

lemma Unmarshal_path_object:
  "Unmarshal_path (JObject args) = (type_error [''path''] args, string_field ''path'' args)"
  by simp



text \<open>
  Claim C2, as stated, fails. A call of \<open>edit_file\<close> without the path is not answered
  with a failure payload: the tool puts \<open>./failed.txt\<close> in its place and creates that
  file. A call whose \<open>PATH\<close> member is a boolean fails to decode, and the recovery
  branch goes on to create \<open>./fizzbuzz.js\<close>.
\<close>

theorem missing_path_substituted_counterexample:
  "EditFile demo_fs (JObject [(''new_str'', JString ''hi''), (''old_str'', JString [])]) =
     Returned (Inr (Plain ''Successfully created file ./failed.txt''), fs_failed_hi) \<and>
   EditFile demo_fs (JObject [(''PATH'', JBool True)]) =
     Returned (Inr (Plain ''Successfully created file ./fizzbuzz.js''), fs_fizzbuzz)"
  by (simp add: run_defs demo_fs_def fs_failed_hi_def fs_fizzbuzz_def)

text \<open>
  Claim C2, amended. For every \<open>read_file\<close> or \<open>list_files\<close> call whose path has the
  wrong type, the tool returns a failure payload and changes nothing. A missing or null
  field is no conversion failure in any of the three tools: it is read as the empty
  string and the tool goes on, \<open>read_file\<close> to fail on the empty path, \<open>list_files\<close> to
  list \<open>.\<close>, and \<open>edit_file\<close>, which neither fails to decode nor panics on such a
  payload, to edit the path \<open>./failed.txt\<close>.
\<close>

theorem conversion_outcomes:
  "(type_error [''path''] args \<longrightarrow>
      ReadFile st (JObject args) = Returned (Inl UnmarshalTypeError, st) \<and>
      ListFiles st (JObject args) = Returned (Inl (FailedToParseInput UnmarshalTypeError), st)) \<and>
   (\<not> type_error [''path''] args \<and> string_field ''path'' args = [] \<longrightarrow>
      ReadFile st (JObject args) = Returned (Inl (PathError ''open'' [] ENOENT), st) \<and>
      ListFiles st (JObject args) = ListFiles st (JObject [(''path'', JString ''.'')])) \<and>
   (\<not> type_error [''path'', ''old_str'', ''new_str''] args \<longrightarrow>
      EditFile st (JObject args) =
        Returned (edit st \<lparr>Path = string_field ''path'' args,
                             OldStr = string_field ''old_str'' args,
                             NewStr = string_field ''new_str'' args\<rparr>) \<and>
      (string_field ''path'' args = [] \<longrightarrow>
         EditFile st (JObject args) =
           Returned (edit st \<lparr>Path = ''./failed.txt'',
                                OldStr = string_field ''old_str'' args,
                                NewStr = string_field ''new_str'' args\<rparr>)))"
proof (intro conjI impI)
  assume "type_error [''path''] args"
  then show "ReadFile st (JObject args) = Returned (Inl UnmarshalTypeError, st)"
    and "ListFiles st (JObject args) = Returned (Inl (FailedToParseInput UnmarshalTypeError), st)"
    by (simp_all add: ReadFile_def ListFiles_def)
next
  assume a: "\<not> type_error [''path''] args \<and> string_field ''path'' args = []"
  then show "ReadFile st (JObject args) = Returned (Inl (PathError ''open'' [] ENOENT), st)"
    by (simp add: ReadFile_def os_ReadFile_def namei_def)
  have "Unmarshal_path (JObject [(''path'', JString ''.'')]) = (False, ''.'')"
    by (simp add: type_error_def field_members_def string_field_def)
  with a show "ListFiles st (JObject args) = ListFiles st (JObject [(''path'', JString ''.'')])"
    by (simp add: ListFiles_def del: Unmarshal_path.simps add: Unmarshal_path_object)
next
  assume "\<not> type_error [''path'', ''old_str'', ''new_str''] args"
  then show e: "EditFile st (JObject args) =
        Returned (edit st \<lparr>Path = string_field ''path'' args,
                             OldStr = string_field ''old_str'' args,
                             NewStr = string_field ''new_str'' args\<rparr>)"
    by (rule EditFile_well_formed)
  assume "string_field ''path'' args = []"
  with e show "EditFile st (JObject args) =
           Returned (edit st \<lparr>Path = ''./failed.txt'',
                                OldStr = string_field ''old_str'' args,
                                NewStr = string_field ''new_str'' args\<rparr>)"
    by (simp add: edit_default_path)
qed

theorem conversion_outcomes_witness:
  "type_error [''path''] [(''path'', JNumber 3)] \<and>
   ReadFile demo_fs (JObject [(''path'', JNumber 3)]) = Returned (Inl UnmarshalTypeError, demo_fs) \<and>
   ListFiles demo_fs (JObject [(''path'', JNumber 3)]) =
     Returned (Inl (FailedToParseInput UnmarshalTypeError), demo_fs) \<and>
   \<not> type_error [''path''] [] \<and> string_field ''path'' [] = [] \<and>
   ReadFile demo_fs (JObject []) = Returned (Inl (PathError ''open'' [] ENOENT), demo_fs) \<and>
   ListFiles demo_fs (JObject []) =
     Returned (Inr (Marshalled [''a.txt'', ''b/'', ''b/c.txt'']), demo_fs) \<and>
   \<not> type_error [''path'', ''old_str'', ''new_str''] [(''new_str'', JNull)] \<and>
   string_field ''path'' [(''new_str'', JNull)] = [] \<and>
   EditFile demo_fs (JObject [(''new_str'', JNull)]) =
     Returned (edit demo_fs \<lparr>Path = ''./failed.txt'', OldStr = [], NewStr = []\<rparr>)"
proof -
  have a: "type_error [''path''] [(''path'', JNumber 3)]"
    by (simp add: run_defs)
  have b: "\<not> type_error [''path''] [] \<and> string_field ''path'' [] = []"
    by (simp add: run_defs)
  have c: "\<not> type_error [''path'', ''old_str'', ''new_str''] [(''new_str'', JNull)] \<and>
      string_field ''path'' [(''new_str'', JNull)] = [] \<and>
      string_field ''old_str'' [(''new_str'', JNull)] = [] \<and>
      string_field ''new_str'' [(''new_str'', JNull)] = []"
    by (simp add: run_defs)
  have d: "ListFiles demo_fs (JObject [(''path'', JString ''.'')]) =
      Returned (Inr (Marshalled [''a.txt'', ''b/'', ''b/c.txt'']), demo_fs)"
    by (simp add: run_defs demo_fs_def)
  from conversion_outcomes [of "[(''path'', JNumber 3)]" demo_fs] a
  have r1: "ReadFile demo_fs (JObject [(''path'', JNumber 3)]) =
      Returned (Inl UnmarshalTypeError, demo_fs) \<and>
    ListFiles demo_fs (JObject [(''path'', JNumber 3)]) =
      Returned (Inl (FailedToParseInput UnmarshalTypeError), demo_fs)"
    by blast
  from conversion_outcomes [of "[]" demo_fs] b
  have "ReadFile demo_fs (JObject []) = Returned (Inl (PathError ''open'' [] ENOENT), demo_fs) \<and>
    ListFiles demo_fs (JObject []) = ListFiles demo_fs (JObject [(''path'', JString ''.'')])"
    by blast
  with d have r2: "ReadFile demo_fs (JObject []) =
      Returned (Inl (PathError ''open'' [] ENOENT), demo_fs) \<and>
    ListFiles demo_fs (JObject []) =
      Returned (Inr (Marshalled [''a.txt'', ''b/'', ''b/c.txt'']), demo_fs)"
    by simp
  from conversion_outcomes [of "[(''new_str'', JNull)]" demo_fs] c
  have r3: "EditFile demo_fs (JObject [(''new_str'', JNull)]) =
     Returned (edit demo_fs \<lparr>Path = ''./failed.txt'', OldStr = [], NewStr = []\<rparr>)"
    by (simp add: edit_default_path)
  from a b c r1 r2 r3 show ?thesis by blast
qed

subsection \<open>The agent loop\<close>

lemma null_like_empty_object:
  "ReadFile st JNull = ReadFile st (JObject [])"
  "ListFiles st JNull = ListFiles st (JObject [])"
  "EditFile st JNull = EditFile st (JObject [])"
  by (simp_all add: ReadFile_def ListFiles_def EditFile_def EditFile_input_def
      type_error_def field_members_def string_field_def zero_EditFileInput_def)

lemma executeTool_not_found:
  "find (\<lambda>tool. Name tool = name) a = None \<Longrightarrow>
   executeTool a st name input = Returned (ErrorToolNotFound, st, [])"
  by (simp add: executeTool_def)

lemma dispatch_one_result_per_call:
  "dispatch a st cs = Returned (toolParts, st', evs) \<Longrightarrow>
   map fst toolParts = map fst cs \<and> list_all is_trace evs"
proof (induction cs arbitrary: st toolParts st' evs)
  case Nil
  then show ?case by simp
next
  case (Cons call cs)
  from Cons.prems obtain result st1 ev1 rs ev2 where
    e: "executeTool a st (fst call) (snd call) = Returned (result, st1, ev1)"
    and d: "dispatch a st1 cs = Returned (rs, st', ev2)"
    and t: "toolParts = (fst call, result) # rs" and v: "evs = ev1 @ ev2"
    by (auto split: outcome.splits)
  from e have "list_all is_trace ev1"
    by (auto simp: executeTool_def Let_def split: option.splits outcome.splits sum.splits)
  with Cons.IH [OF d] t v show ?case by simp
qed

lemma dispatch_unknown_then_known:
  "dispatch tools demo_fs [(''nope'', []), (''read_file'', [(''path'', JString ''a.txt'')])] =
     Returned ([(''nope'', ErrorToolNotFound), (''read_file'', Result (Plain ''hello''))], demo_fs,
               [ToolTrace ''read_file'' (JObject [(''path'', JString ''a.txt'')])])"
  by (simp add: run_defs demo_fs_def)

text \<open>
  Claim C1 says that for every response with tool calls the loop makes one result for
  each call, in order, and sends them together. It does so whenever every tool returns
  (\<open>dispatch_one_result_per_call\<close>, and \<open>dispatch_unknown_then_known\<close> for an unknown
  name). But a tool can panic: on the response with the one call
  \<open>edit_file({"path": 5})\<close> the type assertion in the recovery branch of \<open>EditFile\<close>
  panics, \<open>Run\<close> does not recover, and the process ends without a result for the call.
\<close>

theorem run_panics_on_mistyped_path:
  "Run tools scripted
     \<lparr>files = demo_fs,
      session = [Inr [Candidate (Some [FunctionCall ''edit_file'' [(''path'', JNumber 5)]])]],
      events = []\<rparr> [''edit it''] = Panicked"
  by (simp add: run_defs demo_fs_def)

lemma not_responses_Printed: "list_all (\<lambda>e. \<not> is_responses e \<and> \<not> is_trace e) (map Printed xs)"
  by (induction xs) auto

lemma not_responses_trace: "list_all is_trace evs \<Longrightarrow> list_all (\<lambda>e. \<not> is_responses e) evs"
proof (induction evs)
  case Nil
  then show ?case by simp
next
  case (Cons e evs)
  then show ?case by (cases e) auto
qed

lemma turn_events:
  assumes "turn a gw w u = Returned (r, w')"
  shows "\<exists>before after. events w' = events w @ before @ after \<and>
           list_all (\<lambda>e. \<not> is_responses e) before \<and>
           (after = [] \<or>
            (\<exists>toolParts rest. after = Sent (FunctionResponses toolParts) # rest \<and>
               list_all (\<lambda>e. \<not> is_responses e \<and> \<not> is_trace e) rest))"
proof -
  obtain x g1 where g: "gw (session w) (UserText u) = (x, g1)"
    by (cases "gw (session w) (UserText u)")
  show ?thesis
  proof (cases x)
    case (Inl err)
    with assms g have "events w' = events w @ [Sent (UserText u), Logged (ErrorSendingMessage err)] @ []"
      by (auto simp: turn_def)
    then show ?thesis by (intro exI conjI) (assumption, simp_all)
  next
    case (Inr resp)
    with assms g obtain parts where p: "first_parts resp = Returned parts"
      by (cases "first_parts resp") (auto simp: turn_def)
    let ?e1 = "[Sent (UserText u)] @ map Printed (texts parts)"
    have e1: "list_all (\<lambda>e. \<not> is_responses e) ?e1"
      using not_responses_Printed [of "texts parts"] by (simp add: list_all_iff)
    show ?thesis
    proof (cases "calls parts = []")
      case True
      with assms g Inr p have "events w' = events w @ ?e1 @ []"
        by (auto simp: turn_def Let_def)
      with e1 show ?thesis by blast
    next
      case False
      with assms g Inr p obtain toolParts st2 evs where
        d: "dispatch a (files w) (calls parts) = Returned (toolParts, st2, evs)"
        by (cases "dispatch a (files w) (calls parts)") (auto simp: turn_def Let_def)
      from d have "list_all is_trace evs"
        by (auto dest: dispatch_one_result_per_call)
      then have "list_all (\<lambda>e. \<not> is_responses e) evs"
        by (rule not_responses_trace)
      with e1 have b: "list_all (\<lambda>e. \<not> is_responses e) (?e1 @ evs)"
        by simp
      obtain y g2 where g2: "gw g1 (FunctionResponses toolParts) = (y, g2)"
        by (cases "gw g1 (FunctionResponses toolParts)")
      show ?thesis
      proof (cases y)
        case (Inl err)
        with assms g Inr p False d g2
        have "events w' = events w @ (?e1 @ evs) @ (Sent (FunctionResponses toolParts) # [Logged err])"
          by (auto simp: turn_def Let_def)
        moreover have "list_all (\<lambda>e. \<not> is_responses e \<and> \<not> is_trace e) [Logged err]"
          by simp
        ultimately show ?thesis using b by blast
      next
        case (Inr resp2)
        with assms g \<open>x = Inr resp\<close> p False d g2 obtain parts2 where
          p2: "first_parts resp2 = Returned parts2"
          by (cases "first_parts resp2") (auto simp: turn_def Let_def)
        with assms g \<open>x = Inr resp\<close> p False d g2 Inr
        have "events w' = events w @ (?e1 @ evs) @
            (Sent (FunctionResponses toolParts) # map Printed (texts parts2))"
          by (auto simp: turn_def Let_def)
        with b not_responses_Printed [of "texts parts2"] show ?thesis by blast
      qed
    qed
  qed
qed

text \<open>
  Claim C8. After the loop has sent the tool results of a turn and the model has
  answered, only the text parts of that answer are printed and the loop goes on to read
  the next line, with the filesystem as the tools of the first response left it: tool
  calls in the follow-up response are not dispatched. In every turn that returns, at most
  one message of tool results is sent, and nothing sent or traced follows it.
\<close>

theorem single_round_of_tools:
  "(gw (session w) (UserText u) = (Inr resp, g1) \<and> first_parts resp = Returned parts \<and>
    calls parts \<noteq> [] \<and> dispatch a (files w) (calls parts) = Returned (toolParts, st2, evs) \<and>
    gw g1 (FunctionResponses toolParts) = (Inr resp2, g2) \<and> first_parts resp2 = Returned parts2 \<longrightarrow>
      Run_loop a gw w (u # rest) =
        Run_loop a gw
          \<lparr>files = st2, session = g2,
           events = events w @ [Prompt, Read u, Sent (UserText u)] @ map Printed (texts parts) @
                    evs @ [Sent (FunctionResponses toolParts)] @ map Printed (texts parts2)\<rparr> rest) \<and>
   (turn a gw w u = Returned (r, w') \<longrightarrow>
      (\<exists>before after. events w' = events w @ before @ after \<and>
         list_all (\<lambda>e. \<not> is_responses e) before \<and>
         (after = [] \<or>
          (\<exists>results rest. after = Sent (FunctionResponses results) # rest \<and>
             list_all (\<lambda>e. \<not> is_responses e \<and> \<not> is_trace e) rest))))"
proof (intro conjI impI)
  assume "gw (session w) (UserText u) = (Inr resp, g1) \<and> first_parts resp = Returned parts \<and>
    calls parts \<noteq> [] \<and> dispatch a (files w) (calls parts) = Returned (toolParts, st2, evs) \<and>
    gw g1 (FunctionResponses toolParts) = (Inr resp2, g2) \<and> first_parts resp2 = Returned parts2"
  then show "Run_loop a gw w (u # rest) =
        Run_loop a gw
          \<lparr>files = st2, session = g2,
           events = events w @ [Prompt, Read u, Sent (UserText u)] @ map Printed (texts parts) @
                    evs @ [Sent (FunctionResponses toolParts)] @ map Printed (texts parts2)\<rparr> rest"
    by (simp add: turn_def Let_def)
next
  assume "turn a gw w u = Returned (r, w')"
  then show "\<exists>before after. events w' = events w @ before @ after \<and>
         list_all (\<lambda>e. \<not> is_responses e) before \<and>
         (after = [] \<or>
          (\<exists>results rest. after = Sent (FunctionResponses results) # rest \<and>
             list_all (\<lambda>e. \<not> is_responses e \<and> \<not> is_trace e) rest))"
    by (rule turn_events)
qed

theorem single_round_of_tools_witness:
  "Run_loop tools scripted demo_world [''hi''] =
     Returned (None,
       \<lparr>files = demo_fs, session = [],
        events = [Prompt, Read ''hi'', Sent (UserText ''hi''), Printed ''looking'',
                  ToolTrace ''read_file'' (JObject [(''path'', JString ''a.txt'')]),
                  Sent (FunctionResponses [(''nope'', ErrorToolNotFound),
                                           (''read_file'', Result (Plain ''hello''))]),
                  Printed ''done'', Prompt]\<rparr>) \<and>
   (\<exists>w' before results rest.
      turn tools scripted demo_world ''hi'' = Returned (None, w') \<and>
      events w' = events demo_world @ before @ Sent (FunctionResponses results) # rest \<and>
      list_all (\<lambda>e. \<not> is_responses e) before \<and>
      list_all (\<lambda>e. \<not> is_responses e \<and> \<not> is_trace e) rest)"
proof -
  let ?parts = "[Text ''looking'', FunctionCall ''nope'' [],
                 FunctionCall ''read_file'' [(''path'', JString ''a.txt'')]]"
  let ?parts2 = "[FunctionCall ''edit_file''
                     [(''new_str'', JString ''bye''), (''old_str'', JString ''hello''),
                      (''path'', JString ''a.txt'')], Text ''done'']"
  let ?results = "[(''nope'', ErrorToolNotFound), (''read_file'', Result (Plain ''hello''))]"
  let ?evs = "[ToolTrace ''read_file'' (JObject [(''path'', JString ''a.txt'')])]"
  have d: "dispatch tools demo_fs (calls ?parts) = Returned (?results, demo_fs, ?evs)"
    using dispatch_unknown_then_known by simp
  have h: "scripted (session demo_world) (UserText ''hi'') = (Inr [Candidate (Some ?parts)], [demo_reply2]) \<and>
      first_parts [Candidate (Some ?parts)] = Returned ?parts \<and> calls ?parts \<noteq> [] \<and>
      dispatch tools (files demo_world) (calls ?parts) = Returned (?results, demo_fs, ?evs) \<and>
      scripted [demo_reply2] (FunctionResponses ?results) = (Inr [Candidate (Some ?parts2)], []) \<and>
      first_parts [Candidate (Some ?parts2)] = Returned ?parts2"
    using d by (simp add: demo_world_def demo_reply1_def demo_reply2_def del: dispatch.simps)
  from single_round_of_tools [where gw = scripted and w = demo_world and u = "''hi''"
      and a = tools and rest = "[]", THEN conjunct1, rule_format, OF h]
  have r: "Run_loop tools scripted demo_world [''hi''] =
     Returned (None,
       \<lparr>files = demo_fs, session = [],
        events = [Prompt, Read ''hi'', Sent (UserText ''hi''), Printed ''looking'',
                  ToolTrace ''read_file'' (JObject [(''path'', JString ''a.txt'')]),
                  Sent (FunctionResponses ?results), Printed ''done'', Prompt]\<rparr>)"
    by (simp add: demo_world_def)
  let ?w' = "\<lparr>files = demo_fs, session = [],
        events = [Sent (UserText ''hi''), Printed ''looking'',
                  ToolTrace ''read_file'' (JObject [(''path'', JString ''a.txt'')]),
                  Sent (FunctionResponses ?results), Printed ''done'']\<rparr>
        :: ((error + response) list) world"
  have t: "turn tools scripted demo_world ''hi'' = Returned (None, ?w')"
    using d by (simp add: turn_def demo_world_def demo_reply1_def demo_reply2_def
        del: dispatch.simps)
  from single_round_of_tools [where gw = scripted and w = demo_world and u = "''hi''"
      and a = tools, THEN conjunct2, rule_format, OF t]
  obtain before after where
    e: "events ?w' = events demo_world @ before @ after"
    and b: "list_all (\<lambda>e. \<not> is_responses e) before"
    and a: "after = [] \<or> (\<exists>results rest. after = Sent (FunctionResponses results) # rest \<and>
             list_all (\<lambda>e. \<not> is_responses e \<and> \<not> is_trace e) rest)"
    by blast
  have "after \<noteq> []"
  proof
    assume "after = []"
    with e b have "list_all (\<lambda>e. \<not> is_responses e) (events ?w')"
      by (simp add: demo_world_def)
    then show False by simp
  qed
  with a obtain results rest where "after = Sent (FunctionResponses results) # rest"
    and "list_all (\<lambda>e. \<not> is_responses e \<and> \<not> is_trace e) rest"
    by blast
  with t e b have "\<exists>w' before results rest.
      turn tools scripted demo_world ''hi'' = Returned (None, w') \<and>
      events w' = events demo_world @ before @ Sent (FunctionResponses results) # rest \<and>
      list_all (\<lambda>e. \<not> is_responses e) before \<and>
      list_all (\<lambda>e. \<not> is_responses e \<and> \<not> is_trace e) rest"
    by blast
  with r show ?thesis by blast
qed

subsection \<open>Creating a file\<close>






















subsection \<open>Listing a directory\<close>



declare walkDir.simps(2) [simp del]












end
